theory Spec2Isabelle
  imports Main "HOL-Library.Word"
begin

unbundle bit_operations_syntax

section \<open>The session of memcached.cpp\<close>

text \<open>
  A shallow embedding of \<^verbatim>\<open>class session\<close> of memcached.cpp. The callback chain
  \<^verbatim>\<open>do_read_header \<rightarrow> do_read_body \<rightarrow> do_get | do_set \<rightarrow> send_response \<rightarrow> do_read_header\<close>
  is written in state-passing style: every function takes the state and returns a verdict
  together with the state it leaves behind, and \<open>do_read_header\<close> is the loop.
\<close>

subsection \<open>Data\<close>

type_synonym byte = "8 word"

text \<open>\<^verbatim>\<open>using itemType = std::vector<unsigned char>\<close>\<close>

type_synonym itemType = "byte list"

text \<open>\<^verbatim>\<open>std::map<itemType, itemType> g_itemCache\<close>: one value per key.\<close>

type_synonym cache = "itemType \<rightharpoonup> itemType"

text \<open>
  The effects of a session, in the order in which they happen: an \<^verbatim>\<open>async_read\<close> of a
  header or of a body (with the bytes read, or \<open>None\<close> when it completes with an error),
  the two accesses to the map (\<^verbatim>\<open>g_itemCache.find\<close> and \<^verbatim>\<open>g_itemCache[key] = value\<close>),
  and an \<^verbatim>\<open>async_write\<close> (of the whole buffer, or of the part that left before the error).
\<close>

datatype event =
    EvReadHeader "itemType option"
  | EvReadBody "itemType option"
  | EvFind itemType
  | EvAssign itemType itemType
  | EvWrite itemType
  | EvWriteError itemType

text \<open>
  How a handler ends. \<open>Continue\<close>: the write handler calls \<^verbatim>\<open>do_read_header\<close> again.
  \<open>Closed\<close>: the handler returns without starting another operation, the last reference
  to the session goes away and the socket closes. \<open>Undefined\<close>: \<^verbatim>\<open>do_set\<close> has formed an
  iterator range that leaves \<^verbatim>\<open>buffer_\<close>, or \<^verbatim>\<open>do_read_body\<close> has shifted a value out of
  \<^verbatim>\<open>int\<close>; C++ says nothing about what happens then, and the model stops there.
\<close>

datatype verdict = Continue | Closed | Undefined

text \<open>
  The members \<^verbatim>\<open>header_\<close> and \<^verbatim>\<open>buffer_\<close> of the session (fields \<open>header\<close> and
  \<open>buffer\<close>: a field name cannot end with an underscore), the global map, and the
  socket seen from the server: \<open>rx\<close> are the bytes the peer sends before it closes its
  end, \<open>room\<close> is the number of bytes the peer still takes before writes fail, and
  \<open>trace\<close> is the log of effects so far. \<open>beyond\<close> stands for the memory that follows
  the elements of \<^verbatim>\<open>buffer_\<close>: \<open>beyond s t i\<close> is the byte found \<open>i\<close> places after the last
  element when the log is \<open>t\<close>. The program does not control it, and nothing is assumed
  about it.
\<close>

record state =
  header :: itemType
  buffer :: itemType
  g_itemCache :: cache
  rx :: itemType
  room :: nat
  trace :: "event list"
  beyond :: "event list \<Rightarrow> nat \<Rightarrow> byte"

definition header_length :: nat where
  "header_length = 24"

definition log :: "event \<Rightarrow> state \<Rightarrow> state" where
  "log e s = s\<lparr>trace := trace s @ [e]\<rparr>"

subsection \<open>The socket\<close>

text \<open>
  \<^verbatim>\<open>async_read(socket_, buffer(p, n), handler)\<close> completes without error once \<open>n\<close> bytes
  have arrived, and with an error when the peer closes before that.
\<close>

definition async_read :: "nat \<Rightarrow> state \<Rightarrow> itemType option \<times> state" where
  "async_read n s =
     (if n \<le> length (rx s) then (Some (take n (rx s)), s\<lparr>rx := drop n (rx s)\<rparr>)
      else (None, s\<lparr>rx := []\<rparr>))"

text \<open>
  \<^verbatim>\<open>async_write(socket_, buffer(p, n), handler)\<close> completes without error once all
  \<open>n\<close> bytes are written, and with an error when the connection breaks before that.
\<close>

definition async_write :: "itemType \<Rightarrow> state \<Rightarrow> bool \<times> state" where
  "async_write bytes s =
     (if length bytes \<le> room s
      then (True, log (EvWrite bytes) (s\<lparr>room := room s - length bytes\<rparr>))
      else (False, log (EvWriteError (take (room s) bytes)) (s\<lparr>room := 0\<rparr>)))"

subsection \<open>Iterator ranges\<close>

text \<open>
  \<^verbatim>\<open>itemType(buffer_.begin() + a, buffer_.begin() + b)\<close>: the elements from index \<open>a\<close>
  up to \<open>b\<close>. The range is valid only inside the vector; the source checks nothing, so
  out of range the result is \<open>None\<close>, which \<open>do_set\<close> turns into \<open>Undefined\<close>.
\<close>

definition vec_range :: "itemType \<Rightarrow> nat \<Rightarrow> nat \<Rightarrow> itemType option" where
  "vec_range buf a b =
     (if a \<le> b \<and> b \<le> length buf then Some (take (b - a) (drop a buf)) else None)"

text \<open>
  The same range when it is only read, as \<^verbatim>\<open>do_get\<close> does to build the key it looks up:
  the copy runs from index \<open>a\<close> to \<open>b\<close> with no check, so where the range leaves the
  vector it goes on through the memory after the elements, \<open>mem\<close>. Inside the vector
  this is the range above.
\<close>

definition range_past :: "itemType \<Rightarrow> (nat \<Rightarrow> byte) \<Rightarrow> nat \<Rightarrow> nat \<Rightarrow> itemType" where
  "range_past buf mem a b = take (b - a) (drop a (buf @ map mem [0..<b - length buf]))"

subsection \<open>send_response\<close>

definition not_found :: itemType where
  "not_found = [0x4E, 0x6F, 0x74, 0x20, 0x66, 0x6F, 0x75, 0x6E, 0x64]"

text \<open>
  Lines 155 to 172: the buffer that \<^verbatim>\<open>send_response(status)\<close> hands to the write.
  \<open>bodyLength\<close> is a \<^verbatim>\<open>size_t\<close>, read before the buffer is replaced on a miss; each
  assignment to an \<^verbatim>\<open>unsigned char\<close> keeps its low 8 bits, which is what \<open>of_nat\<close>
  into \<open>8 word\<close> does.
\<close>

definition response_buffer :: "byte \<Rightarrow> itemType \<Rightarrow> itemType" where
  "response_buffer status buf =
     (let bodyLength = length buf;
          extraLength = (if status = 0 \<and> length buf \<noteq> 0 then 4 else 0);
          buf1 = (if status = 1 then not_found else buf);
          buf2 = replicate header_length 0 @ buf1
      in buf2
          [0 := 0x81,
           4 := extraLength,
           6 := 0,
           7 := status,
           8 := of_nat (drop_bit 24 bodyLength),
           9 := of_nat (drop_bit 16 bodyLength),
           10 := of_nat (drop_bit 8 bodyLength),
           11 := of_nat (bodyLength AND 0xff)])"

definition send_response :: "byte \<Rightarrow> state \<Rightarrow> verdict \<times> state" where
  "send_response status s =
     (let s1 = s\<lparr>buffer := response_buffer status (buffer s)\<rparr>
      in case async_write (buffer s1) s1 of
           (ok, s2) \<Rightarrow> (if ok then Continue else Closed, s2))"

subsection \<open>do_get and do_set\<close>

text \<open>\<^verbatim>\<open>(header_[2] << 8) + header_[3]\<close>, computed in \<^verbatim>\<open>int\<close>: at most 65535.\<close>

definition keySize :: "itemType \<Rightarrow> nat" where
  "keySize h = push_bit 8 (unat (h ! 2)) + unat (h ! 3)"

text \<open>
  \<^verbatim>\<open>do_get\<close> compares the key region with the size of the body nowhere: it builds the key
  from \<open>keySize\<close> bytes at \<open>keyStart\<close>, looks it up and answers, whatever the body holds.
\<close>

definition do_get :: "state \<Rightarrow> verdict \<times> state" where
  "do_get s =
     (let keyStart = unat (header s ! 4);
          key = range_past (buffer s) (beyond s (trace s)) keyStart
                  (keyStart + keySize (header s));
          s1 = log (EvFind key) s;
          s2 = (case g_itemCache s1 key of
                  Some v \<Rightarrow> s1\<lparr>buffer := v\<rparr>
                | None \<Rightarrow> s1\<lparr>buffer := []\<rparr>)
      in send_response (if length (buffer s2) \<noteq> 0 then 0 else 1) s2)"

text \<open>
  \<^verbatim>\<open>do_set\<close> builds the flags from the first 4 bytes and appends the range from
  \<open>valStart\<close> to the end of the body; a body without 4 bytes, or one that ends before
  \<open>valStart\<close> (a range whose start lies after its end), is \<open>Undefined\<close>.
\<close>

definition do_set :: "state \<Rightarrow> verdict \<times> state" where
  "do_set s =
     (let keyStart = unat (header s ! 4);
          valStart = keyStart + keySize (header s)
      in case vec_range (buffer s) 0 4 of
           None \<Rightarrow> (Undefined, s)
         | Some flags \<Rightarrow>
            (case vec_range (buffer s) valStart (length (buffer s)) of
               None \<Rightarrow> (Undefined, s)
             | Some payload \<Rightarrow>
                (case vec_range (buffer s) keyStart (keyStart + keySize (header s)) of
                   None \<Rightarrow> (Undefined, s)
                 | Some key \<Rightarrow>
                     let tempValue = flags @ payload;
                         s1 = log (EvAssign key tempValue)
                                (s\<lparr>g_itemCache := (g_itemCache s)(key \<mapsto> tempValue)\<rparr>);
                         s2 = s1\<lparr>buffer := []\<rparr>
                     in send_response 0 s2)))"

subsection \<open>do_read_body and do_read_header\<close>

text \<open>
  \<^verbatim>\<open>(header_[8] << 24) + (header_[9] << 16) + (header_[10] << 8) + header_[11]\<close>. The
  bytes are promoted to \<^verbatim>\<open>int\<close>, so for \<^verbatim>\<open>header_[8]\<close> of 0x80 and more the shift
  leaves the range of a 32-bit \<^verbatim>\<open>int\<close> and the value that reaches \<^verbatim>\<open>size_t\<close> depends on
  the platform: \<open>None\<close>.
\<close>

definition bodySize :: "itemType \<Rightarrow> nat option" where
  "bodySize h =
     (if 0x80 \<le> h ! 8 then None
      else Some (push_bit 24 (unat (h ! 8)) + push_bit 16 (unat (h ! 9))
                 + push_bit 8 (unat (h ! 10)) + unat (h ! 11)))"

text \<open>
  \<^verbatim>\<open>buffer_.resize(bodySize)\<close>, then the read into it. A read of no bytes completes at
  once (the address \<^verbatim>\<open>&(buffer_[0])\<close> of the empty vector is handed over with length 0 and
  nothing is read through it). On success the whole of \<^verbatim>\<open>buffer_\<close> is the body just read;
  after an error the session ends and the buffer is not looked at again.
\<close>

definition do_read_body :: "state \<Rightarrow> verdict \<times> state" where
  "do_read_body s =
     (case bodySize (header s) of
        None \<Rightarrow> (Undefined, s)
      | Some n \<Rightarrow>
         (case async_read n s of
            (None, s1) \<Rightarrow> (Closed, log (EvReadBody None) s1)
          | (Some bytes, s1) \<Rightarrow>
              let s2 = log (EvReadBody (Some bytes)) (s1\<lparr>buffer := bytes\<rparr>)
              in if header s2 ! 1 = 0x0 then do_get s2
                 else if header s2 ! 1 = 0x1 then do_set s2
                 else (Closed, s2)))"

text \<open>
  The handler of the header read: on an error, or on a header whose magic byte or opcode
  is not accepted, it returns without doing anything. Otherwise the body is read and
  answered, and the write handler comes back here. No handler puts bytes back on the
  socket, so what is left to read shrinks by a header in every round.
\<close>

function do_read_header :: "state \<Rightarrow> verdict \<times> state" where
  "do_read_header s =
     (case async_read header_length s of
        (None, s1) \<Rightarrow> (Closed, log (EvReadHeader None) s1)
      | (Some bytes, s1) \<Rightarrow>
          let s2 = log (EvReadHeader (Some bytes)) (s1\<lparr>header := bytes\<rparr>)
          in if header s2 ! 0 = 0x80 \<and> (header s2 ! 1 = 0x0 \<or> header s2 ! 1 = 0x1)
             then (let r = do_read_body s2
                   in if fst r = Continue then do_read_header (snd r) else r)
             else (Closed, s2))"
  by pat_completeness auto
termination
proof (relation "measure (\<lambda>s. length (rx s))", goal_cases)
  case 1
  show ?case by simp
next
  case (2 s x1 x2 bytes s2 r)
  have "rx (snd (send_response st u)) = rx u" for st u
    by (simp add: send_response_def async_write_def log_def Let_def)
  then have "rx (snd (do_get u)) = rx u" and "rx (snd (do_set u)) = rx u" for u
    by (simp_all add: do_get_def do_set_def log_def Let_def split: option.splits)
  then have "length (rx (snd (do_read_body u))) \<le> length (rx u)" for u
    by (simp add: do_read_body_def async_read_def log_def Let_def split: option.splits)
  from this [of s2] 2 show ?case
    by (auto simp: async_read_def header_length_def log_def split: if_splits)
qed

declare do_read_header.simps [simp del]

text \<open>\<^verbatim>\<open>session::start\<close>\<close>

definition start :: "state \<Rightarrow> verdict \<times> state" where
  "start s = do_read_header s"

subsection \<open>The order of effects\<close>

text \<open>
  In a log of effects, every read of a header but the one the log starts with comes
  directly after the completion of a whole write.
\<close>

fun is_header_read :: "event \<Rightarrow> bool" where
  "is_header_read (EvReadHeader _) = True"
| "is_header_read _ = False"

fun is_write :: "event \<Rightarrow> bool" where
  "is_write (EvWrite _) = True"
| "is_write _ = False"

fun written_before_read :: "event list \<Rightarrow> bool" where
  "written_before_read (e # e' # es) =
     ((is_header_read e' \<longrightarrow> is_write e) \<and> written_before_read (e' # es))"
| "written_before_read _ = True"

subsection \<open>The invariant of the map\<close>

text \<open>Every stored value starts with its four bytes of flags.\<close>

definition values_have_flags :: "cache \<Rightarrow> bool" where
  "values_have_flags c = (\<forall>k v. c k = Some v \<longrightarrow> 4 \<le> length v)"

subsection \<open>Requests used as examples\<close>

text \<open>The key \<^verbatim>\<open>foo\<close>, the flags \<^verbatim>\<open>AAAA\<close> and \<^verbatim>\<open>BBBB\<close>, the values \<^verbatim>\<open>bar\<close> and \<^verbatim>\<open>baz\<close>.\<close>

definition key_foo :: itemType where
  "key_foo = [0x66, 0x6F, 0x6F]"

definition flags_A :: itemType where
  "flags_A = [0x41, 0x41, 0x41, 0x41]"

definition flags_B :: itemType where
  "flags_B = [0x42, 0x42, 0x42, 0x42]"

definition value_bar :: itemType where
  "value_bar = [0x62, 0x61, 0x72]"

definition value_baz :: itemType where
  "value_baz = [0x62, 0x61, 0x7A]"

text \<open>A GET header for a key of 3 bytes, no extras, body of 3 bytes.\<close>

definition get_foo_header :: itemType where
  "get_foo_header = [0x80, 0x00, 0x00, 0x03, 0x00, 0x00, 0x00, 0x00,
                     0x00, 0x00, 0x00, 0x03, 0x00, 0x00, 0x00, 0x00,
                     0x00, 0x00, 0x00, 0x00, 0x00, 0x00, 0x00, 0x00]"

text \<open>A SET header for a key of 3 bytes, extras of 4 bytes, body of 10 bytes.\<close>

definition set_foo_header :: itemType where
  "set_foo_header = [0x80, 0x01, 0x00, 0x03, 0x04, 0x00, 0x00, 0x00,
                     0x00, 0x00, 0x00, 0x0A, 0x00, 0x00, 0x00, 0x00,
                     0x00, 0x00, 0x00, 0x00, 0x00, 0x00, 0x00, 0x00]"

text \<open>A header with the magic byte of a response, and one with the opcode of DELETE.\<close>

definition bad_magic_header :: itemType where
  "bad_magic_header = [0x81, 0x00, 0x00, 0x03, 0x00, 0x00, 0x00, 0x00,
                       0x00, 0x00, 0x00, 0x03, 0x00, 0x00, 0x00, 0x00,
                       0x00, 0x00, 0x00, 0x00, 0x00, 0x00, 0x00, 0x00]"

definition bad_opcode_header :: itemType where
  "bad_opcode_header = [0x80, 0x04, 0x00, 0x03, 0x00, 0x00, 0x00, 0x00,
                        0x00, 0x00, 0x00, 0x03, 0x00, 0x00, 0x00, 0x00,
                        0x00, 0x00, 0x00, 0x00, 0x00, 0x00, 0x00, 0x00]"

text \<open>
  A session that has just been accepted, on an empty map; the memory after the buffer
  holds zeros.
\<close>

definition fresh :: state where
  "fresh = \<lparr>header = replicate 24 0, buffer = [], g_itemCache = Map.empty,
            rx = [], room = 100, trace = [], beyond = (\<lambda>t i. 0)\<rparr>"

text \<open>States in which a body has just been read, before \<^verbatim>\<open>do_get\<close> or \<^verbatim>\<open>do_set\<close> runs.\<close>

definition get_foo_empty :: state where
  "get_foo_empty = fresh\<lparr>header := get_foo_header, buffer := key_foo\<rparr>"


definition set_foo_bar :: state where
  "set_foo_bar = fresh\<lparr>header := set_foo_header, buffer := flags_A @ key_foo @ value_bar\<rparr>"

definition set_no_extras :: state where
  "set_no_extras = fresh\<lparr>header := set_foo_header[4 := 0],
                          buffer := key_foo @ flags_A @ value_bar\<rparr>"

definition set_foo_baz :: state where
  "set_foo_baz = fresh\<lparr>header := set_foo_header, buffer := flags_B @ key_foo @ value_baz,
                        g_itemCache := g_itemCache (snd (do_set set_foo_bar))\<rparr>"

definition get_foo_bar :: state where
  "get_foo_bar = fresh\<lparr>header := get_foo_header, buffer := key_foo,
                        g_itemCache := g_itemCache (snd (do_set set_foo_bar))\<rparr>"

definition get_foo_baz :: state where
  "get_foo_baz = fresh\<lparr>header := get_foo_header, buffer := key_foo,
                        g_itemCache := g_itemCache (snd (do_set set_foo_baz))\<rparr>"

text \<open>A new session to which a SET frame and a GET frame arrive back to back.\<close>

definition pipelined :: state where
  "pipelined =
     fresh\<lparr>rx := set_foo_header @ (flags_A @ key_foo @ value_bar) @ get_foo_header @ key_foo\<rparr>"

section \<open>Properties\<close>

subsection \<open>The response buffer\<close>

lemma replicate_header:
  "replicate 24 x =
     [x, x, x, x, x, x, x, x, x, x, x, x, x, x, x, x, x, x, x, x, x, x, x, x]"
  by (simp add: numeral_eq_Suc)

lemma response_buffer_length:
  "length (response_buffer st buf) = 24 + length (if st = 1 then not_found else buf)"
  by (simp add: response_buffer_def Let_def header_length_def)

lemma response_buffer_drop:
  "drop 24 (response_buffer st buf) = (if st = 1 then not_found else buf)"
  by (simp add: response_buffer_def Let_def header_length_def)

lemma response_buffer_magic: "response_buffer st buf ! 0 = 0x81"
  by (simp add: response_buffer_def Let_def header_length_def nth_list_update)

lemma response_buffer_status:
  "response_buffer st buf ! 6 = 0 \<and> response_buffer st buf ! 7 = st"
  by (simp add: response_buffer_def Let_def header_length_def nth_list_update)

lemma response_buffer_extras:
  "response_buffer st buf ! 4 = (if st = 0 \<and> buf \<noteq> [] then 4 else 0)"
  by (simp add: response_buffer_def Let_def header_length_def nth_list_update)

text \<open>
  When the buffer is not replaced (any status but 1) and its length fits 32 bits, bytes 8
  to 11 of the header are the big-endian length of the bytes that follow the header.
\<close>

lemma big_endian_32:
  fixes n :: nat
  assumes "n < 2 ^ 32"
  shows "n div 2 ^ 24 * 2 ^ 24 + (n div 2 ^ 16) mod 256 * 2 ^ 16
         + (n div 2 ^ 8) mod 256 * 2 ^ 8 + n mod 256 = n"
proof -
  define a where "a = n div 256"
  define b where "b = a div 256"
  define c where "c = b div 256"
  have n: "n = a * 256 + n mod 256"
    by (simp add: a_def)
  have a: "a = b * 256 + a mod 256"
    by (simp add: b_def)
  have b: "b = c * 256 + b mod 256"
    by (simp add: c_def)
  have d8: "n div 256 = a" by (simp add: a_def)
  have d16: "n div 65536 = b"
    unfolding b_def a_def by (simp add: div_mult2_eq [symmetric])
  have d24: "n div 16777216 = c"
    unfolding c_def b_def a_def by (simp add: div_mult2_eq [symmetric])
  have "c * 2 ^ 24 + b mod 256 * 2 ^ 16 + a mod 256 * 2 ^ 8 + n mod 256
        = ((c * 256 + b mod 256) * 256 + a mod 256) * 256 + n mod 256"
    by (simp add: algebra_simps)
  also have "\<dots> = n"
    using n a b by simp
  finally show ?thesis
    by (simp add: d8 d16 d24)
qed

lemma response_buffer_body_length:
  assumes "st \<noteq> 1" and "length buf < 2 ^ 32"
  shows "unat (response_buffer st buf ! 8) * 2 ^ 24 + unat (response_buffer st buf ! 9) * 2 ^ 16
         + unat (response_buffer st buf ! 10) * 2 ^ 8 + unat (response_buffer st buf ! 11)
         = length (drop 24 (response_buffer st buf))"
proof -
  have "length (drop 24 (response_buffer st buf)) = length buf"
    using assms(1) by (simp add: response_buffer_drop)
  moreover have "(m::nat) AND 0xff = m mod 256" for m
    using take_bit_eq_mask [of 8 m] by (simp add: take_bit_eq_mod mask_eq_exp_minus_1)
  then have "response_buffer st buf ! 8 = of_nat (length buf div 2 ^ 24)"
    "response_buffer st buf ! 9 = of_nat (length buf div 2 ^ 16)"
    "response_buffer st buf ! 10 = of_nat (length buf div 2 ^ 8)"
    "response_buffer st buf ! 11 = of_nat (length buf mod 256)"
    by (simp_all add: response_buffer_def Let_def header_length_def nth_list_update
        drop_bit_eq_div)
  ultimately show ?thesis
    using big_endian_32 [of "length buf"] assms(2) by (simp add: unat_of_nat)
qed

lemma send_response_written:
  assumes "length (response_buffer st (buffer s)) \<le> room s"
  shows "send_response st s =
           (Continue, s\<lparr>buffer := response_buffer st (buffer s),
                        room := room s - length (response_buffer st (buffer s)),
                        trace := trace s @ [EvWrite (response_buffer st (buffer s))]\<rparr>)"
  using assms by (simp add: send_response_def async_write_def log_def Let_def)

lemma send_response_buffer:
  "buffer (snd (send_response st s)) = response_buffer st (buffer s)"
  by (simp add: send_response_def async_write_def log_def Let_def)

lemma send_response_cache:
  "g_itemCache (snd (send_response st s)) = g_itemCache s"
  by (simp add: send_response_def async_write_def log_def Let_def)

subsection \<open>The handlers on a body that holds the key\<close>

lemma vec_range_key:
  "a + n \<le> length buf \<Longrightarrow> vec_range buf a (a + n) = Some (take n (drop a buf))"
  by (simp add: vec_range_def)

lemma range_past_inside:
  "a + n \<le> length buf \<Longrightarrow> range_past buf mem a (a + n) = take n (drop a buf)"
  by (simp add: range_past_def)


lemma do_get_found:
  assumes "unat (header s ! 4) + keySize (header s) \<le> length (buffer s)"
    and "g_itemCache s (take (keySize (header s)) (drop (unat (header s ! 4)) (buffer s))) = Some v"
  shows "do_get s =
     send_response (if v \<noteq> [] then 0 else 1)
       (s\<lparr>trace := trace s @
          [EvFind (take (keySize (header s)) (drop (unat (header s ! 4)) (buffer s)))],
          buffer := v\<rparr>)"
  using assms by (simp add: do_get_def range_past_inside log_def Let_def)

lemma do_get_missing:
  assumes "unat (header s ! 4) + keySize (header s) \<le> length (buffer s)"
    and "g_itemCache s (take (keySize (header s)) (drop (unat (header s ! 4)) (buffer s))) = None"
  shows "do_get s =
     send_response 1
       (s\<lparr>trace := trace s @
          [EvFind (take (keySize (header s)) (drop (unat (header s ! 4)) (buffer s)))],
          buffer := []\<rparr>)"
  using assms by (simp add: do_get_def range_past_inside log_def Let_def)

lemma do_set_cache:
  assumes "4 \<le> length (buffer s)"
    and "unat (header s ! 4) + keySize (header s) \<le> length (buffer s)"
  shows "do_set s =
     send_response 0
       (s\<lparr>g_itemCache := (g_itemCache s)
            (take (keySize (header s)) (drop (unat (header s ! 4)) (buffer s)) \<mapsto>
             take 4 (buffer s) @ drop (unat (header s ! 4) + keySize (header s)) (buffer s)),
          trace := trace s @
            [EvAssign (take (keySize (header s)) (drop (unat (header s ! 4)) (buffer s)))
               (take 4 (buffer s) @ drop (unat (header s ! 4) + keySize (header s)) (buffer s))],
          buffer := []\<rparr>)"
  using assms by (simp add: do_set_def vec_range_key vec_range_def log_def Let_def)

lemma example_sizes:
  "keySize get_foo_header = 3" "unat (get_foo_header ! 4) = 0"
  "keySize set_foo_header = 3" "unat (set_foo_header ! 4) = 4"
  by (simp_all add: keySize_def get_foo_header_def set_foo_header_def)

subsection \<open>One round of the loop\<close>

lemma do_read_header_round:
  assumes "length h = 24" and "rx s = h @ body @ rest"
    and "h ! 0 = 0x80" and "h ! 1 = 0 \<or> h ! 1 = 1"
    and "bodySize h = Some (length body)"
  shows "do_read_header s =
     (let s2 = s\<lparr>header := h, rx := rest, buffer := body,
                 trace := trace s @ [EvReadHeader (Some h), EvReadBody (Some body)]\<rparr>;
          r = (if h ! 1 = 0 then do_get s2 else do_set s2)
      in if fst r = Continue then do_read_header (snd r) else r)"
proof -
  let ?s1 = "s\<lparr>rx := body @ rest, header := h, trace := trace s @ [EvReadHeader (Some h)]\<rparr>"
  let ?s2 = "s\<lparr>header := h, rx := rest, buffer := body,
                 trace := trace s @ [EvReadHeader (Some h), EvReadBody (Some body)]\<rparr>"
  have rd: "async_read header_length s = (Some h, s\<lparr>rx := body @ rest\<rparr>)"
    using assms(1,2) by (simp add: async_read_def header_length_def)
  have ok: "h ! 0 = 0x80 \<and> (h ! 1 = 0x0 \<or> h ! 1 = 0x1)"
    using assms(3,4) by blast
  have rb: "async_read (length body) ?s1 = (Some body, ?s1\<lparr>rx := rest\<rparr>)"
    by (simp add: async_read_def)
  have body: "do_read_body ?s1 = (if h ! 1 = 0 then do_get ?s2 else do_set ?s2)"
    using assms(4,5) rb by (auto simp add: do_read_body_def log_def Let_def)
  have "do_read_header s =
     (if fst (do_read_body ?s1) = Continue then do_read_header (snd (do_read_body ?s1))
      else do_read_body ?s1)"
    by (subst do_read_header.simps) (simp add: rd log_def Let_def ok del: One_nat_def)
  then show ?thesis
    by (simp only: body Let_def)
qed

subsection \<open>The log of a session\<close>

lemma written_before_read_no_reads:
  "\<forall>e \<in> set es. \<not> is_header_read e \<Longrightarrow> written_before_read (e0 # es)"
  by (induction es arbitrary: e0) auto

lemma written_before_read_append:
  "written_before_read (xs @ [w]) \<Longrightarrow> is_write w \<Longrightarrow> written_before_read ys \<Longrightarrow>
   written_before_read (xs @ w # ys)"
proof (induction xs rule: written_before_read.induct, goal_cases)
  case (1 e e' es)
  then show ?case by simp
next
  case 2
  then show ?case by (cases ys) auto
next
  case (3 e)
  then show ?case by (cases ys) auto
qed

lemma send_response_trace:
  "\<exists>w. trace (snd (send_response st s)) = trace s @ [w] \<and> \<not> is_header_read w
       \<and> (fst (send_response st s) = Continue \<longrightarrow> is_write w)"
  by (simp add: send_response_def async_write_def log_def Let_def)

lemma do_read_body_trace:
  "\<exists>evs. trace (snd (do_read_body s)) = trace s @ evs
         \<and> (\<forall>e \<in> set evs. \<not> is_header_read e)
         \<and> (fst (do_read_body s) = Continue \<longrightarrow> evs \<noteq> [] \<and> is_write (last evs))"
proof -
  have get: "\<exists>evs. trace (snd (do_get u)) = trace u @ evs
         \<and> (\<forall>e \<in> set evs. \<not> is_header_read e)
         \<and> (fst (do_get u) = Continue \<longrightarrow> evs \<noteq> [] \<and> is_write (last evs))" for u
  proof -
    define key where "key = range_past (buffer u) (beyond u (trace u)) (unat (header u ! 4))
                              (unat (header u ! 4) + keySize (header u))"
    define u2 where "u2 = (case g_itemCache (log (EvFind key) u) key of
                         Some v \<Rightarrow> (log (EvFind key) u)\<lparr>buffer := v\<rparr>
                       | None \<Rightarrow> (log (EvFind key) u)\<lparr>buffer := []\<rparr>)"
    have t2: "trace u2 = trace u @ [EvFind key]"
      by (simp add: u2_def log_def split: option.splits)
    have eq: "do_get u = send_response (if length (buffer u2) \<noteq> 0 then 0 else 1) u2"
      by (simp only: do_get_def Let_def u2_def key_def)
    obtain w where "trace (snd (do_get u)) = trace u2 @ [w]" "\<not> is_header_read w"
      "fst (do_get u) = Continue \<longrightarrow> is_write w"
      using send_response_trace [of "if length (buffer u2) \<noteq> 0 then 0 else 1" u2] eq by auto
    then show ?thesis
      using t2 by (intro exI [of _ "[EvFind key, w]"]) simp
  qed
  have set: "\<exists>evs. trace (snd (do_set u)) = trace u @ evs
         \<and> (\<forall>e \<in> set evs. \<not> is_header_read e)
         \<and> (fst (do_set u) = Continue \<longrightarrow> evs \<noteq> [] \<and> is_write (last evs))" for u
  proof (cases "4 \<le> length (buffer u)
                \<and> unat (header u ! 4) + keySize (header u) \<le> length (buffer u)")
    case False
    then show ?thesis
      by (auto simp add: do_set_def vec_range_def Let_def)
  next
    case True
    let ?key = "take (keySize (header u)) (drop (unat (header u ! 4)) (buffer u))"
    let ?val = "take 4 (buffer u) @ drop (unat (header u ! 4) + keySize (header u)) (buffer u)"
    let ?u2 = "u\<lparr>g_itemCache := (g_itemCache u)(?key \<mapsto> ?val),
                 trace := trace u @ [EvAssign ?key ?val], buffer := []\<rparr>"
    have eq: "do_set u = send_response 0 ?u2"
      using True by (simp add: do_set_cache)
    obtain w where "trace (snd (do_set u)) = trace ?u2 @ [w]" "\<not> is_header_read w"
      "fst (do_set u) = Continue \<longrightarrow> is_write w"
      using send_response_trace [of 0 ?u2] eq by auto
    then show ?thesis
      by (intro exI [of _ "[EvAssign ?key ?val, w]"]) simp
  qed
  show ?thesis
  proof (cases "bodySize (header s)")
    case None
    then show ?thesis by (simp add: do_read_body_def)
  next
    case (Some n)
    show ?thesis
    proof (cases "n \<le> length (rx s)")
      case False
      then show ?thesis
        using Some by (simp add: do_read_body_def async_read_def log_def)
    next
      case True
      define s2 where "s2 = log (EvReadBody (Some (take n (rx s))))
                              (s\<lparr>rx := drop n (rx s), buffer := take n (rx s)\<rparr>)"
      have t2: "trace s2 = trace s @ [EvReadBody (Some (take n (rx s)))]"
        by (simp add: s2_def log_def)
      have eq: "do_read_body s =
                  (if header s2 ! 1 = 0x0 then do_get s2
                   else if header s2 ! 1 = 0x1 then do_set s2 else (Closed, s2))"
        using Some True by (simp add: do_read_body_def async_read_def Let_def s2_def)
      consider (g) "do_read_body s = do_get s2" | (s) "do_read_body s = do_set s2"
        | (c) "do_read_body s = (Closed, s2)"
        using eq by presburger
      then show ?thesis
      proof cases
        case g
        from get [of s2] obtain evs where "trace (snd (do_get s2)) = trace s2 @ evs"
          "\<forall>e \<in> set evs. \<not> is_header_read e"
          "fst (do_get s2) = Continue \<longrightarrow> evs \<noteq> [] \<and> is_write (last evs)"
          by blast
        then show ?thesis
          using g t2 by (intro exI [of _ "EvReadBody (Some (take n (rx s))) # evs"]) simp
      next
        case s
        from set [of s2] obtain evs where "trace (snd (do_set s2)) = trace s2 @ evs"
          "\<forall>e \<in> set evs. \<not> is_header_read e"
          "fst (do_set s2) = Continue \<longrightarrow> evs \<noteq> [] \<and> is_write (last evs)"
          by blast
        then show ?thesis
          using s t2 by (intro exI [of _ "EvReadBody (Some (take n (rx s))) # evs"]) simp
      next
        case c
        then show ?thesis
          using t2 by (intro exI [of _ "[EvReadBody (Some (take n (rx s)))]"]) simp
      qed
    qed
  qed
qed


lemma do_read_header_trace:
  "\<exists>e evs. trace (snd (do_read_header s)) = trace s @ e # evs
           \<and> is_header_read e \<and> written_before_read (e # evs)"
proof (induction s rule: do_read_header.induct)
  case (1 s)
  show ?case
  proof (cases "header_length \<le> length (rx s)")
    case False
    then have "trace (snd (do_read_header s)) = trace s @ [EvReadHeader None]"
      by (subst do_read_header.simps) (simp add: async_read_def log_def)
    then show ?thesis by simp
  next
    case True
    define bytes where "bytes = take header_length (rx s)"
    define s1 where "s1 = s\<lparr>rx := drop header_length (rx s)\<rparr>"
    define s2 where "s2 = log (EvReadHeader (Some bytes)) (s1\<lparr>header := bytes\<rparr>)"
    have rd: "async_read header_length s = (Some bytes, s1)"
      using True by (simp add: async_read_def bytes_def s1_def)
    have t2: "trace s2 = trace s @ [EvReadHeader (Some bytes)]"
      by (simp add: s2_def s1_def log_def)
    obtain bevs where bevs: "trace (snd (do_read_body s2)) = trace s2 @ bevs"
      "\<forall>e \<in> set bevs. \<not> is_header_read e"
      "fst (do_read_body s2) = Continue \<longrightarrow> bevs \<noteq> [] \<and> is_write (last bevs)"
      using do_read_body_trace [of s2] by blast
    show ?thesis
    proof (cases "header s2 ! 0 = 0x80 \<and> (header s2 ! 1 = 0x0 \<or> header s2 ! 1 = 0x1)")
      case False
      then have "do_read_header s = (Closed, s2)"
        using rd by (subst do_read_header.simps) (auto simp add: s2_def Let_def)
      then show ?thesis using t2 by simp
    next
      case ok: True
      show ?thesis
      proof (cases "fst (do_read_body s2) = Continue")
        case False
        then have "do_read_header s = do_read_body s2"
          using ok rd by (subst do_read_header.simps) (auto simp add: s2_def Let_def)
        then have "trace (snd (do_read_header s)) = trace s @ EvReadHeader (Some bytes) # bevs"
          using bevs(1) t2 by simp
        moreover have "written_before_read (EvReadHeader (Some bytes) # bevs)"
          using bevs(2) by (rule written_before_read_no_reads)
        ultimately show ?thesis by simp
      next
        case True
        then have eq: "do_read_header s = do_read_header (snd (do_read_body s2))"
          using ok rd by (subst do_read_header.simps) (auto simp add: s2_def Let_def)
        obtain e evs where ih:
          "trace (snd (do_read_header (snd (do_read_body s2)))) =
             trace (snd (do_read_body s2)) @ e # evs"
          "is_header_read e" "written_before_read (e # evs)"
          using "1.IH" [OF rd [symmetric] refl s2_def ok refl True] by blast
        have ne: "bevs \<noteq> []" and w: "is_write (last bevs)"
          using bevs(3) True by simp_all
        have split: "bevs = butlast bevs @ [last bevs]"
          using ne by simp
        have "\<forall>e \<in> set (butlast bevs @ [last bevs]). \<not> is_header_read e"
          using bevs(2) split by simp
        then have "written_before_read ((EvReadHeader (Some bytes) # butlast bevs) @ [last bevs])"
          using written_before_read_no_reads [of "butlast bevs @ [last bevs]"] by simp
        then have "written_before_read
                     ((EvReadHeader (Some bytes) # butlast bevs) @ last bevs # e # evs)"
          using w ih(3) by (rule written_before_read_append)
        then have "written_before_read (EvReadHeader (Some bytes) # bevs @ e # evs)"
          using split by (metis append_Cons append_assoc append_Nil)
        moreover have "trace (snd (do_read_header s)) =
                         trace s @ EvReadHeader (Some bytes) # bevs @ e # evs"
          using eq ih(1) bevs(1) t2 by simp
        ultimately show ?thesis by simp
      qed
    qed
  qed
qed

subsection \<open>Stored values keep their flags\<close>

lemma do_set_values_have_flags:
  assumes "values_have_flags (g_itemCache s)"
  shows "values_have_flags (g_itemCache (snd (do_set s)))"
  using assms
  by (auto simp: do_set_def vec_range_def send_response_cache log_def Let_def
        values_have_flags_def split: option.splits if_splits)

lemma do_get_cache: "g_itemCache (snd (do_get s)) = g_itemCache s"
  by (simp add: do_get_def send_response_cache log_def Let_def split: option.splits)

lemma do_read_body_values_have_flags:
  assumes "values_have_flags (g_itemCache s)"
  shows "values_have_flags (g_itemCache (snd (do_read_body s)))"
  using assms
  by (simp add: do_read_body_def async_read_def log_def Let_def do_get_cache
      do_set_values_have_flags split: option.splits)

lemma do_read_header_values_have_flags:
  "values_have_flags (g_itemCache s) \<Longrightarrow>
   values_have_flags (g_itemCache (snd (do_read_header s)))"
proof (induction s rule: do_read_header.induct)
  case (1 s)
  show ?case
  proof (cases "header_length \<le> length (rx s)")
    case False
    then show ?thesis
      using "1.prems"
      by (subst do_read_header.simps) (simp add: async_read_def log_def)
  next
    case True
    define bytes where "bytes = take header_length (rx s)"
    define s1 where "s1 = s\<lparr>rx := drop header_length (rx s)\<rparr>"
    define s2 where "s2 = log (EvReadHeader (Some bytes)) (s1\<lparr>header := bytes\<rparr>)"
    have rd: "async_read header_length s = (Some bytes, s1)"
      using True by (simp add: async_read_def bytes_def s1_def)
    have inv2: "values_have_flags (g_itemCache s2)"
      using "1.prems" by (simp add: s2_def s1_def log_def)
    have body: "values_have_flags (g_itemCache (snd (do_read_body s2)))"
      using inv2 by (rule do_read_body_values_have_flags)
    show ?thesis
    proof (cases "header s2 ! 0 = 0x80 \<and> (header s2 ! 1 = 0x0 \<or> header s2 ! 1 = 0x1)")
      case False
      then show ?thesis
        using inv2 rd
        by (subst do_read_header.simps) (auto simp add: s2_def Let_def)
    next
      case ok: True
      show ?thesis
      proof (cases "fst (do_read_body s2) = Continue")
        case False
        then show ?thesis
          using ok body rd
          by (subst do_read_header.simps) (auto simp add: s2_def Let_def)
      next
        case True
        have "values_have_flags (g_itemCache (snd (do_read_header (snd (do_read_body s2)))))"
          using "1.IH" [OF rd [symmetric] refl s2_def ok refl True] body .
        then show ?thesis
          using ok True rd
          by (subst do_read_header.simps) (auto simp add: s2_def Let_def)
      qed
    qed
  qed
qed

section \<open>The claims\<close>

subsection \<open>GET leaves the map alone\<close>

text \<open>
  C10. A GET never modifies the store: whatever the state, hit or miss (or a key region
  out of range), the map after \<open>do_get\<close> is the map before it.
\<close>

theorem do_get_keeps_cache: "g_itemCache (snd (do_get s)) = g_itemCache s"
  by (simp add: do_get_def send_response_cache log_def Let_def split: option.splits)

subsection \<open>A miss\<close>

text \<open>
  C3. A GET whose key is not in the map (a key never set; on the empty map, any key)
  writes a response whose status bytes 6 and 7 are 0 and 1 (KeyNotFound) and whose bytes
  after the 24 bytes of header are the ASCII characters of \<^verbatim>\<open>Not found\<close>. The key is the
  one the body holds at the offset of the extras; the peer takes the 33 bytes.
\<close>

theorem get_miss_not_found:
  assumes "unat (header s ! 4) + keySize (header s) \<le> length (buffer s)"
    and "g_itemCache s (take (keySize (header s)) (drop (unat (header s ! 4)) (buffer s))) = None"
    and "33 \<le> room s"
  shows "fst (do_get s) = Continue
       \<and> trace (snd (do_get s)) = trace s @
           [EvFind (take (keySize (header s)) (drop (unat (header s ! 4)) (buffer s))),
            EvWrite (buffer (snd (do_get s)))]
       \<and> buffer (snd (do_get s)) ! 6 = 0
       \<and> buffer (snd (do_get s)) ! 7 = 1
       \<and> drop 24 (buffer (snd (do_get s))) = not_found"
  using assms
  by (simp add: do_get_missing send_response_written response_buffer_length not_found_def
        response_buffer_status response_buffer_drop)

theorem get_miss_not_found_witness:
  "unat (header get_foo_empty ! 4) + keySize (header get_foo_empty) \<le> length (buffer get_foo_empty)
   \<and> g_itemCache get_foo_empty key_foo = None
   \<and> 33 \<le> room get_foo_empty
   \<and> fst (do_get get_foo_empty) = Continue
   \<and> trace (snd (do_get get_foo_empty)) =
        [EvFind key_foo, EvWrite (buffer (snd (do_get get_foo_empty)))]
   \<and> buffer (snd (do_get get_foo_empty)) ! 6 = 0
   \<and> buffer (snd (do_get get_foo_empty)) ! 7 = 1
   \<and> drop 24 (buffer (snd (do_get get_foo_empty))) =
        [0x4E, 0x6F, 0x74, 0x20, 0x66, 0x6F, 0x75, 0x6E, 0x64]"
  using get_miss_not_found [of get_foo_empty]
  by (simp add: get_foo_empty_def fresh_def example_sizes key_foo_def not_found_def)

subsection \<open>What SET stores\<close>

text \<open>
  C7. On a SET body that holds four bytes and the key region, the flags are the first 4
  bytes of the body whatever the extras length says, the key is the \<open>keySize\<close> bytes at
  the offset given by the extras length, the payload is everything after the key region,
  and the value assigned to the key in the map is the flags followed by the payload.
\<close>

theorem do_set_decodes_body:
  assumes "4 \<le> length (buffer s)"
    and "unat (header s ! 4) + keySize (header s) \<le> length (buffer s)"
  shows "g_itemCache (snd (do_set s)) =
           (g_itemCache s)
             (take (keySize (header s)) (drop (unat (header s ! 4)) (buffer s)) \<mapsto>
              take 4 (buffer s) @ drop (unat (header s ! 4) + keySize (header s)) (buffer s))"
  using assms by (simp add: do_set_cache send_response_cache)

text \<open>
  With an extras length of 0 and the body \<^verbatim>\<open>fooAAAAbar\<close>: the key is \<^verbatim>\<open>foo\<close>, the flags are
  \<^verbatim>\<open>fooA\<close> and the payload is \<^verbatim>\<open>AAAAbar\<close>.
\<close>

theorem do_set_decodes_body_witness:
  "4 \<le> length (buffer set_no_extras)
   \<and> unat (header set_no_extras ! 4) + keySize (header set_no_extras)
        \<le> length (buffer set_no_extras)
   \<and> g_itemCache (snd (do_set set_no_extras)) =
        Map.empty ([0x66, 0x6F, 0x6F] \<mapsto>
                   [0x66, 0x6F, 0x6F, 0x41] @ [0x41, 0x41, 0x41, 0x41, 0x62, 0x61, 0x72])"
  using do_set_decodes_body [of set_no_extras]
  by (simp add: set_no_extras_def fresh_def keySize_def set_foo_header_def key_foo_def
      flags_A_def value_bar_def)

subsection \<open>SET, then GET\<close>

text \<open>
  C1. For any key \<open>K\<close> (as long as the 16 bits of the key length allow) and any value
  \<open>V\<close>, the empty one too: after a SET whose body is 4 bytes of flags, \<open>K\<close> and \<open>V\<close>, a
  GET of \<open>K\<close> on the resulting map writes a response with status bytes 0 and 0 (NoError)
  whose body is the flags followed by \<open>V\<close>. The GET body may carry extras \<open>ex\<close> before
  the key; the peer takes the response.
\<close>

theorem set_get_roundtrip:
  assumes "length flags = 4"
    and "unat (header s ! 4) = 4"
    and "keySize (header s) = length K"
    and "buffer s = flags @ K @ V"
    and "g_itemCache t = g_itemCache (snd (do_set s))"
    and "unat (header t ! 4) = length ex"
    and "keySize (header t) = length K"
    and "buffer t = ex @ K"
    and "28 + length V \<le> room t"
  shows "fst (do_get t) = Continue
       \<and> trace (snd (do_get t)) = trace t @ [EvFind K, EvWrite (buffer (snd (do_get t)))]
       \<and> buffer (snd (do_get t)) ! 6 = 0
       \<and> buffer (snd (do_get t)) ! 7 = 0
       \<and> drop 24 (buffer (snd (do_get t))) = flags @ V"
proof -
  have "g_itemCache (snd (do_set s)) = (g_itemCache s)(K \<mapsto> flags @ V)"
    using assms(1-4) by (simp add: do_set_cache send_response_cache)
  then have hit:
    "g_itemCache t (take (keySize (header t)) (drop (unat (header t ! 4)) (buffer t)))
      = Some (flags @ V)"
    using assms(5-8) by simp
  have inb: "unat (header t ! 4) + keySize (header t) \<le> length (buffer t)"
    using assms(6-8) by simp
  have ne: "flags @ V \<noteq> []"
    using assms(1) by auto
  show ?thesis
    using assms(1,6-9) ne
    by (simp add: do_get_found [OF inb hit] send_response_written response_buffer_length
        response_buffer_status response_buffer_drop)
qed

theorem set_get_roundtrip_witness:
  "length flags_A = 4
   \<and> unat (header set_foo_bar ! 4) = 4
   \<and> keySize (header set_foo_bar) = length key_foo
   \<and> buffer set_foo_bar = flags_A @ key_foo @ value_bar
   \<and> g_itemCache get_foo_bar = g_itemCache (snd (do_set set_foo_bar))
   \<and> unat (header get_foo_bar ! 4) = length ([] :: itemType)
   \<and> keySize (header get_foo_bar) = length key_foo
   \<and> buffer get_foo_bar = [] @ key_foo
   \<and> 28 + length value_bar \<le> room get_foo_bar
   \<and> fst (do_get get_foo_bar) = Continue
   \<and> buffer (snd (do_get get_foo_bar)) ! 6 = 0
   \<and> buffer (snd (do_get get_foo_bar)) ! 7 = 0
   \<and> drop 24 (buffer (snd (do_get get_foo_bar))) = [0x41, 0x41, 0x41, 0x41, 0x62, 0x61, 0x72]"
  using set_get_roundtrip [of flags_A set_foo_bar key_foo value_bar get_foo_bar "[]"]
  by (simp add: set_foo_bar_def get_foo_bar_def fresh_def example_sizes key_foo_def
      flags_A_def value_bar_def)

subsection \<open>SET twice, then GET\<close>

text \<open>
  C4. The map holds one value per key (it is a \<^verbatim>\<open>std::map\<close>, here a function from keys to
  optional values), and a SET on a key that is present replaces its value: after
  SET(\<open>K\<close>, \<open>V1\<close>) the key holds the first flags and \<open>V1\<close>; after SET(\<open>K\<close>, \<open>V2\<close>) the map is the
  one a single SET(\<open>K\<close>, \<open>V2\<close>) gives on the first map, nothing of \<open>V1\<close> is left; and the GET
  of \<open>K\<close> answers with status NoError and the second flags followed by \<open>V2\<close>.
\<close>

theorem set_set_get_overwrite:
  assumes "length flags1 = 4" and "length flags2 = 4"
    and "unat (header s1 ! 4) = 4" and "keySize (header s1) = length K"
    and "buffer s1 = flags1 @ K @ V1"
    and "g_itemCache s2 = g_itemCache (snd (do_set s1))"
    and "unat (header s2 ! 4) = 4" and "keySize (header s2) = length K"
    and "buffer s2 = flags2 @ K @ V2"
    and "g_itemCache t = g_itemCache (snd (do_set s2))"
    and "unat (header t ! 4) = length ex" and "keySize (header t) = length K"
    and "buffer t = ex @ K"
    and "28 + length V2 \<le> room t"
  shows "g_itemCache (snd (do_set s1)) K = Some (flags1 @ V1)
       \<and> g_itemCache (snd (do_set s2)) = (g_itemCache s1)(K \<mapsto> flags2 @ V2)
       \<and> fst (do_get t) = Continue
       \<and> trace (snd (do_get t)) = trace t @ [EvFind K, EvWrite (buffer (snd (do_get t)))]
       \<and> buffer (snd (do_get t)) ! 6 = 0
       \<and> buffer (snd (do_get t)) ! 7 = 0
       \<and> drop 24 (buffer (snd (do_get t))) = flags2 @ V2"
proof -
  have c1: "g_itemCache (snd (do_set s1)) = (g_itemCache s1)(K \<mapsto> flags1 @ V1)"
    using assms(1,3-5) by (simp add: do_set_cache send_response_cache)
  have c2: "g_itemCache (snd (do_set s2)) = (g_itemCache s2)(K \<mapsto> flags2 @ V2)"
    using assms(2,7-9) by (simp add: do_set_cache send_response_cache)
  have c3: "g_itemCache (snd (do_set s2)) = (g_itemCache s1)(K \<mapsto> flags2 @ V2)"
    using c1 c2 assms(6) by simp
  have hit:
    "g_itemCache t (take (keySize (header t)) (drop (unat (header t ! 4)) (buffer t)))
      = Some (flags2 @ V2)"
    using c3 assms(10-13) by simp
  have inb: "unat (header t ! 4) + keySize (header t) \<le> length (buffer t)"
    using assms(11-13) by simp
  have ne: "flags2 @ V2 \<noteq> []"
    using assms(2) by auto
  have "fst (do_get t) = Continue
       \<and> trace (snd (do_get t)) = trace t @ [EvFind K, EvWrite (buffer (snd (do_get t)))]
       \<and> buffer (snd (do_get t)) ! 6 = 0
       \<and> buffer (snd (do_get t)) ! 7 = 0
       \<and> drop 24 (buffer (snd (do_get t))) = flags2 @ V2"
    using assms(2,11-14) ne
    by (simp add: do_get_found [OF inb hit] send_response_written response_buffer_length
        response_buffer_status response_buffer_drop)
  with c1 c3 show ?thesis by simp
qed

theorem set_set_get_overwrite_witness:
  "length flags_A = 4 \<and> length flags_B = 4
   \<and> unat (header set_foo_bar ! 4) = 4 \<and> keySize (header set_foo_bar) = length key_foo
   \<and> buffer set_foo_bar = flags_A @ key_foo @ value_bar
   \<and> g_itemCache set_foo_baz = g_itemCache (snd (do_set set_foo_bar))
   \<and> unat (header set_foo_baz ! 4) = 4 \<and> keySize (header set_foo_baz) = length key_foo
   \<and> buffer set_foo_baz = flags_B @ key_foo @ value_baz
   \<and> g_itemCache get_foo_baz = g_itemCache (snd (do_set set_foo_baz))
   \<and> unat (header get_foo_baz ! 4) = length ([] :: itemType)
   \<and> keySize (header get_foo_baz) = length key_foo
   \<and> buffer get_foo_baz = [] @ key_foo
   \<and> 28 + length value_baz \<le> room get_foo_baz
   \<and> g_itemCache (snd (do_set set_foo_baz)) = Map.empty (key_foo \<mapsto> flags_B @ value_baz)
   \<and> buffer (snd (do_get get_foo_baz)) ! 7 = 0
   \<and> drop 24 (buffer (snd (do_get get_foo_baz))) = [0x42, 0x42, 0x42, 0x42, 0x62, 0x61, 0x7A]"
proof -
  note defs = set_foo_bar_def set_foo_baz_def get_foo_baz_def fresh_def example_sizes
    key_foo_def flags_A_def flags_B_def value_bar_def value_baz_def
  have "g_itemCache (snd (do_set set_foo_bar)) key_foo = Some (flags_A @ value_bar)
       \<and> g_itemCache (snd (do_set set_foo_baz)) =
           (g_itemCache set_foo_bar)(key_foo \<mapsto> flags_B @ value_baz)
       \<and> fst (do_get get_foo_baz) = Continue
       \<and> trace (snd (do_get get_foo_baz)) =
           trace get_foo_baz @ [EvFind key_foo, EvWrite (buffer (snd (do_get get_foo_baz)))]
       \<and> buffer (snd (do_get get_foo_baz)) ! 6 = 0
       \<and> buffer (snd (do_get get_foo_baz)) ! 7 = 0
       \<and> drop 24 (buffer (snd (do_get get_foo_baz))) = flags_B @ value_baz"
    by (rule set_set_get_overwrite [of flags_A flags_B set_foo_bar key_foo value_bar
          set_foo_baz value_baz get_foo_baz "[]"])
      (simp_all add: defs)
  moreover have "g_itemCache set_foo_bar = Map.empty"
    by (simp add: defs)
  moreover have "flags_B @ value_baz = [0x42, 0x42, 0x42, 0x42, 0x62, 0x61, 0x7A]"
    by (simp add: defs)
  moreover have "length flags_A = 4 \<and> length flags_B = 4
   \<and> unat (header set_foo_bar ! 4) = 4 \<and> keySize (header set_foo_bar) = length key_foo
   \<and> buffer set_foo_bar = flags_A @ key_foo @ value_bar
   \<and> g_itemCache set_foo_baz = g_itemCache (snd (do_set set_foo_bar))
   \<and> unat (header set_foo_baz ! 4) = 4 \<and> keySize (header set_foo_baz) = length key_foo
   \<and> buffer set_foo_baz = flags_B @ key_foo @ value_baz
   \<and> g_itemCache get_foo_baz = g_itemCache (snd (do_set set_foo_baz))
   \<and> unat (header get_foo_baz ! 4) = length ([] :: itemType)
   \<and> keySize (header get_foo_baz) = length key_foo
   \<and> buffer get_foo_baz = [] @ key_foo
   \<and> 28 + length value_baz \<le> room get_foo_baz"
    by (simp add: defs)
  ultimately show ?thesis
    by simp
qed

subsection \<open>A GET body shorter than its key region\<close>




subsection \<open>The length field of a miss\<close>

text \<open>
  C2 asks that bytes 8 to 11 of every response header hold the length of the body that
  follows. \<open>send_response\<close> reads \<open>bodyLength\<close> before it replaces the buffer by
  \<^verbatim>\<open>Not found\<close>: on a miss the four bytes are 0 and nine bytes follow the header. Here is
  the whole frame written for a GET of \<^verbatim>\<open>foo\<close> on the empty map.
\<close>

theorem miss_length_field_is_zero:
  "do_get get_foo_empty =
     (Continue,
      get_foo_empty
        \<lparr>buffer := [0x81, 0, 0, 0, 0, 0, 0, 1, 0, 0, 0, 0, 0, 0, 0, 0, 0, 0, 0, 0, 0, 0, 0, 0,
                    0x4E, 0x6F, 0x74, 0x20, 0x66, 0x6F, 0x75, 0x6E, 0x64],
          room := 67,
          trace := [EvFind [0x66, 0x6F, 0x6F],
                    EvWrite [0x81, 0, 0, 0, 0, 0, 0, 1, 0, 0, 0, 0, 0, 0, 0, 0, 0, 0, 0, 0, 0, 0, 0, 0,
                             0x4E, 0x6F, 0x74, 0x20, 0x66, 0x6F, 0x75, 0x6E, 0x64]]\<rparr>)
   \<and> take 4 (drop 8 (buffer (snd (do_get get_foo_empty)))) = [0, 0, 0, 0]
   \<and> length (drop 24 (buffer (snd (do_get get_foo_empty)))) = 9"
  by (simp add: do_get_def range_past_def send_response_def async_write_def log_def Let_def
      response_buffer_def header_length_def replicate_header not_found_def
      get_foo_empty_def fresh_def example_sizes key_foo_def)

subsection \<open>A header that is not accepted\<close>

text \<open>
  C6. When the 24 bytes read as a header have a magic byte other than 0x80, or an opcode
  that is neither 0x00 nor 0x01, the session ends at once (\<open>Closed\<close>). The state it
  leaves differs from the one before only in the header read: the log has the read of
  the header and nothing else (no write, no further read, no access to the map), the
  bytes after the header are still unread, and the map, the buffer and the room are those
  of before.
\<close>

theorem bad_header_closes_silently:
  assumes "length h = 24" and "rx s = h @ rest"
    and "h ! 0 \<noteq> 0x80 \<or> (h ! 1 \<noteq> 0x00 \<and> h ! 1 \<noteq> 0x01)"
  shows "do_read_header s =
           (Closed, s\<lparr>rx := rest, header := h, trace := trace s @ [EvReadHeader (Some h)]\<rparr>)"
proof -
  have rd: "async_read header_length s = (Some h, s\<lparr>rx := rest\<rparr>)"
    using assms(1,2) by (simp add: async_read_def header_length_def)
  have bad: "\<not> (h ! 0 = 0x80 \<and> (h ! 1 = 0x0 \<or> h ! 1 = 0x1))"
    using assms(3) by blast
  show ?thesis
    by (subst do_read_header.simps) (simp add: rd log_def Let_def bad del: One_nat_def)
qed

text \<open>A header with magic byte 0x81, and one with opcode 0x04; a GET frame follows each.\<close>

theorem bad_header_closes_silently_witness:
  "length bad_magic_header = 24
   \<and> bad_magic_header ! 0 = 0x81
   \<and> do_read_header (fresh\<lparr>rx := bad_magic_header @ get_foo_header @ key_foo\<rparr>) =
       (Closed, fresh\<lparr>rx := get_foo_header @ key_foo, header := bad_magic_header,
                      trace := [EvReadHeader (Some bad_magic_header)]\<rparr>)
   \<and> length bad_opcode_header = 24
   \<and> bad_opcode_header ! 1 = 0x04
   \<and> do_read_header (fresh\<lparr>rx := bad_opcode_header @ get_foo_header @ key_foo\<rparr>) =
       (Closed, fresh\<lparr>rx := get_foo_header @ key_foo, header := bad_opcode_header,
                      trace := [EvReadHeader (Some bad_opcode_header)]\<rparr>)"
proof -
  have m: "length bad_magic_header = 24" "bad_magic_header ! 0 = 0x81"
    and o: "length bad_opcode_header = 24" "bad_opcode_header ! 1 = 0x04"
    by (simp_all add: bad_magic_header_def bad_opcode_header_def)
  have "do_read_header (fresh\<lparr>rx := bad_magic_header @ get_foo_header @ key_foo\<rparr>) =
       (Closed, fresh\<lparr>rx := bad_magic_header @ get_foo_header @ key_foo\<rparr>
                  \<lparr>rx := get_foo_header @ key_foo, header := bad_magic_header,
                   trace := trace (fresh\<lparr>rx := bad_magic_header @ get_foo_header @ key_foo\<rparr>)
                            @ [EvReadHeader (Some bad_magic_header)]\<rparr>)"
    by (rule bad_header_closes_silently) (simp_all add: bad_magic_header_def)
  moreover
  have "do_read_header (fresh\<lparr>rx := bad_opcode_header @ get_foo_header @ key_foo\<rparr>) =
       (Closed, fresh\<lparr>rx := bad_opcode_header @ get_foo_header @ key_foo\<rparr>
                  \<lparr>rx := get_foo_header @ key_foo, header := bad_opcode_header,
                   trace := trace (fresh\<lparr>rx := bad_opcode_header @ get_foo_header @ key_foo\<rparr>)
                            @ [EvReadHeader (Some bad_opcode_header)]\<rparr>)"
    by (rule bad_header_closes_silently) (simp_all add: bad_opcode_header_def)
  ultimately show ?thesis
    using m o by (simp add: fresh_def)
qed

subsection \<open>Stored values and hits\<close>

text \<open>
  C9. Every value in the empty map has at least 4 bytes; when every value in the map has
  at least 4 bytes, a SET on a body of at least 4 bytes leaves a map with that property,
  and so do a GET and a whole session on any input. On such a map a GET whose key is
  found writes a response with status bytes 0 and 0 (NoError) and a body that is the
  stored value, which is not empty: choosing the status by the emptiness of the buffer
  reports no hit as a miss. (A SET whose key region leaves the body ends in \<open>Undefined\<close>
  before anything is stored.)
\<close>

theorem hit_is_never_reported_missing:
  assumes "values_have_flags (g_itemCache s)"
    and "4 \<le> length (buffer s)"
    and "values_have_flags (g_itemCache t)"
    and "unat (header t ! 4) + keySize (header t) \<le> length (buffer t)"
    and "g_itemCache t (take (keySize (header t)) (drop (unat (header t ! 4)) (buffer t))) = Some v"
  shows "values_have_flags Map.empty
       \<and> values_have_flags (g_itemCache (snd (do_set s)))
       \<and> values_have_flags (g_itemCache (snd (do_get s)))
       \<and> values_have_flags (g_itemCache (snd (do_read_header s)))
       \<and> v \<noteq> []
       \<and> buffer (snd (do_get t)) ! 6 = 0
       \<and> buffer (snd (do_get t)) ! 7 = 0
       \<and> drop 24 (buffer (snd (do_get t))) = v"
proof -
  have "4 \<le> length v"
    using assms(3,5) unfolding values_have_flags_def by blast
  then have ne: "v \<noteq> []"
    by auto
  have "buffer (snd (do_get t)) = response_buffer 0 v"
    using ne by (simp add: do_get_found [OF assms(4,5)] send_response_buffer)
  moreover have "values_have_flags Map.empty"
    by (simp add: values_have_flags_def)
  ultimately show ?thesis
    using ne assms(1)
    by (simp add: do_set_values_have_flags do_get_cache do_read_header_values_have_flags
        response_buffer_status response_buffer_drop)
qed

theorem hit_is_never_reported_missing_witness:
  "values_have_flags (g_itemCache set_foo_baz)
   \<and> 4 \<le> length (buffer set_foo_baz)
   \<and> values_have_flags (g_itemCache get_foo_bar)
   \<and> unat (header get_foo_bar ! 4) + keySize (header get_foo_bar) \<le> length (buffer get_foo_bar)
   \<and> g_itemCache get_foo_bar key_foo = Some (flags_A @ value_bar)
   \<and> values_have_flags (g_itemCache (snd (do_set set_foo_baz)))
   \<and> buffer (snd (do_get get_foo_bar)) ! 6 = 0
   \<and> buffer (snd (do_get get_foo_bar)) ! 7 = 0
   \<and> drop 24 (buffer (snd (do_get get_foo_bar))) = [0x41, 0x41, 0x41, 0x41, 0x62, 0x61, 0x72]"
proof -
  note defs = set_foo_bar_def set_foo_baz_def get_foo_bar_def fresh_def example_sizes
    key_foo_def flags_A_def flags_B_def value_bar_def value_baz_def
  have c: "g_itemCache (snd (do_set set_foo_bar)) = Map.empty (key_foo \<mapsto> flags_A @ value_bar)"
    by (simp add: do_set_cache send_response_cache defs)
  have h1: "values_have_flags (g_itemCache set_foo_baz)"
    and h3: "values_have_flags (g_itemCache get_foo_bar)"
    by (simp_all add: set_foo_baz_def get_foo_bar_def c values_have_flags_def flags_A_def)
  have h2: "4 \<le> length (buffer set_foo_baz)"
    and h4: "unat (header get_foo_bar ! 4) + keySize (header get_foo_bar)
               \<le> length (buffer get_foo_bar)"
    by (simp_all add: defs)
  have k: "take (keySize (header get_foo_bar)) (drop (unat (header get_foo_bar ! 4))
             (buffer get_foo_bar)) = key_foo"
    by (simp add: defs)
  have h5: "g_itemCache get_foo_bar (take (keySize (header get_foo_bar))
              (drop (unat (header get_foo_bar ! 4)) (buffer get_foo_bar))) = Some (flags_A @ value_bar)"
    unfolding k by (simp add: get_foo_bar_def c)
  from hit_is_never_reported_missing [OF h1 h2 h3 h4 h5] h1 h2 h3 h4 h5 show ?thesis
    unfolding k by (simp add: flags_A_def value_bar_def)
qed

subsection \<open>Requests in a row on one connection\<close>

text \<open>
  C8. In the log of a session, whatever the peer sends, every read of a header after
  the first comes directly after the completed write of a whole response: the read for
  request N+1 begins only when the response to request N is written. So when a SET frame
  and a GET frame for the same key arrive back to back, and the peer takes the two
  responses, the session reads the SET, assigns the value, writes the empty response,
  only then reads the GET, finds the key and writes a response of status NoError whose
  body is the flags and the value of that SET, whatever the map held for the key before.
  The map is accessed by this session alone.
\<close>

theorem pipelined_set_then_get:
  assumes "length h1 = 24" and "h1 ! 0 = 0x80" and "h1 ! 1 = 1" and "unat (h1 ! 4) = 4"
    and "keySize h1 = length K" and "bodySize h1 = Some (4 + length K + length V)"
    and "length flags = 4"
    and "length h2 = 24" and "h2 ! 0 = 0x80" and "h2 ! 1 = 0" and "unat (h2 ! 4) = 0"
    and "keySize h2 = length K" and "bodySize h2 = Some (length K)"
    and "rx s = h1 @ (flags @ K @ V) @ h2 @ K @ rest"
    and "52 + length V \<le> room s"
  shows "written_before_read (drop (length (trace s)) (trace (snd (do_read_header s))))
       \<and> take 8 (drop (length (trace s)) (trace (snd (do_read_header s)))) =
           [EvReadHeader (Some h1), EvReadBody (Some (flags @ K @ V)),
            EvAssign K (flags @ V), EvWrite (response_buffer 0 []),
            EvReadHeader (Some h2), EvReadBody (Some K),
            EvFind K, EvWrite (response_buffer 0 (flags @ V))]
       \<and> response_buffer 0 (flags @ V) ! 6 = 0
       \<and> response_buffer 0 (flags @ V) ! 7 = 0
       \<and> drop 24 (response_buffer 0 (flags @ V)) = flags @ V"
proof -
  have order: "written_before_read (drop (length (trace s)) (trace (snd (do_read_header s))))"
    using do_read_header_trace [of s] by auto
  define sa where "sa = s\<lparr>header := h1, rx := h2 @ K @ rest, buffer := flags @ K @ V,
      trace := trace s @ [EvReadHeader (Some h1), EvReadBody (Some (flags @ K @ V))]\<rparr>"
  have r1: "do_read_header s =
              (if fst (do_set sa) = Continue then do_read_header (snd (do_set sa)) else do_set sa)"
    using do_read_header_round [of h1 s "flags @ K @ V" "h2 @ K @ rest"] assms(1-3,6,7,14)
    by (simp add: sa_def Let_def)
  have set: "do_set sa = send_response 0
       (sa\<lparr>g_itemCache := (g_itemCache sa)(K \<mapsto> flags @ V),
           trace := trace sa @ [EvAssign K (flags @ V)], buffer := []\<rparr>)"
    using do_set_cache [of sa] assms(4,5,7) by (simp add: sa_def)
  have fa: "room sa = room s" "rx sa = h2 @ K @ rest" "g_itemCache sa = g_itemCache s"
    "trace sa = trace s @ [EvReadHeader (Some h1), EvReadBody (Some (flags @ K @ V))]"
    by (simp_all add: sa_def)
  have room_a: "24 \<le> room sa"
    using assms(15) fa(1) by simp
  define sb where "sb = snd (do_set sa)"
  have sb: "fst (do_set sa) = Continue" "rx sb = h2 @ K @ rest"
    "g_itemCache sb = (g_itemCache s)(K \<mapsto> flags @ V)"
    "room sb = room s - 24"
    "trace sb = trace s @ [EvReadHeader (Some h1), EvReadBody (Some (flags @ K @ V)),
                           EvAssign K (flags @ V), EvWrite (response_buffer 0 [])]"
    using room_a
    by (simp_all add: sb_def set send_response_written response_buffer_length fa)
  define sc where "sc = sb\<lparr>header := h2, rx := rest, buffer := K,
      trace := trace sb @ [EvReadHeader (Some h2), EvReadBody (Some K)]\<rparr>"
  have r2: "do_read_header sb =
              (if fst (do_get sc) = Continue then do_read_header (snd (do_get sc)) else do_get sc)"
    using do_read_header_round [of h2 sb K rest] assms(8-10,13) sb(2)
    by (simp add: sc_def Let_def)
  have inb: "unat (header sc ! 4) + keySize (header sc) \<le> length (buffer sc)"
    using assms(11,12) by (simp add: sc_def)
  have hit: "g_itemCache sc (take (keySize (header sc)) (drop (unat (header sc ! 4)) (buffer sc)))
               = Some (flags @ V)"
    using assms(11,12) sb(3) by (simp add: sc_def)
  have ne: "flags @ V \<noteq> []"
    using assms(7) by auto
  have fc: "room sc = room sb" "trace sc = trace sb @ [EvReadHeader (Some h2), EvReadBody (Some K)]"
    "take (keySize (header sc)) (drop (unat (header sc ! 4)) (buffer sc)) = K"
    using assms(11,12) by (simp_all add: sc_def)
  have room_c: "28 + length V \<le> room sc"
    using assms(15) fc(1) sb(4) by simp
  define sd where "sd = snd (do_get sc)"
  have sd: "fst (do_get sc) = Continue"
    "trace sd = trace sb @ [EvReadHeader (Some h2), EvReadBody (Some K),
                            EvFind K, EvWrite (response_buffer 0 (flags @ V))]"
    using assms(7) ne room_c
    by (simp_all add: sd_def do_get_found [OF inb hit] send_response_written
        response_buffer_length fc)
  have "do_read_header s = do_read_header sd"
    using r1 r2 sb(1) sd(1) by (simp add: sb_def sd_def)
  moreover obtain e evs where "trace (snd (do_read_header sd)) = trace sd @ e # evs"
    using do_read_header_trace [of sd] by blast
  ultimately have "trace (snd (do_read_header s)) =
      trace s @ [EvReadHeader (Some h1), EvReadBody (Some (flags @ K @ V)),
            EvAssign K (flags @ V), EvWrite (response_buffer 0 []),
            EvReadHeader (Some h2), EvReadBody (Some K),
            EvFind K, EvWrite (response_buffer 0 (flags @ V))] @ e # evs"
    using sd(2) sb(5) by simp
  then have "take 8 (drop (length (trace s)) (trace (snd (do_read_header s)))) =
           [EvReadHeader (Some h1), EvReadBody (Some (flags @ K @ V)),
            EvAssign K (flags @ V), EvWrite (response_buffer 0 []),
            EvReadHeader (Some h2), EvReadBody (Some K),
            EvFind K, EvWrite (response_buffer 0 (flags @ V))]"
    by simp
  with order ne show ?thesis
    by (simp add: response_buffer_status response_buffer_drop)
qed

text \<open>SET of \<^verbatim>\<open>foo\<close> to \<^verbatim>\<open>bar\<close> with flags \<^verbatim>\<open>AAAA\<close>, then GET of \<^verbatim>\<open>foo\<close>, on a new session.\<close>

theorem pipelined_set_then_get_witness:
  "rx pipelined = set_foo_header @ (flags_A @ key_foo @ value_bar) @ get_foo_header @ key_foo @ []
   \<and> bodySize set_foo_header = Some (4 + length key_foo + length value_bar)
   \<and> bodySize get_foo_header = Some (length key_foo)
   \<and> 52 + length value_bar \<le> room pipelined
   \<and> written_before_read (trace (snd (do_read_header pipelined)))
   \<and> take 8 (trace (snd (do_read_header pipelined))) =
       [EvReadHeader (Some set_foo_header),
        EvReadBody (Some [0x41, 0x41, 0x41, 0x41, 0x66, 0x6F, 0x6F, 0x62, 0x61, 0x72]),
        EvAssign [0x66, 0x6F, 0x6F] [0x41, 0x41, 0x41, 0x41, 0x62, 0x61, 0x72],
        EvWrite [0x81, 0, 0, 0, 0, 0, 0, 0, 0, 0, 0, 0, 0, 0, 0, 0, 0, 0, 0, 0, 0, 0, 0, 0],
        EvReadHeader (Some get_foo_header),
        EvReadBody (Some [0x66, 0x6F, 0x6F]),
        EvFind [0x66, 0x6F, 0x6F],
        EvWrite [0x81, 0, 0, 0, 4, 0, 0, 0, 0, 0, 0, 7, 0, 0, 0, 0, 0, 0, 0, 0, 0, 0, 0, 0,
                 0x41, 0x41, 0x41, 0x41, 0x62, 0x61, 0x72]]"
proof -
  have hyps:
    "length set_foo_header = 24" "set_foo_header ! 0 = 0x80" "set_foo_header ! 1 = 1"
    "unat (set_foo_header ! 4) = 4" "keySize set_foo_header = length key_foo"
    "bodySize set_foo_header = Some (4 + length key_foo + length value_bar)"
    "length flags_A = 4"
    "length get_foo_header = 24" "get_foo_header ! 0 = 0x80" "get_foo_header ! 1 = 0"
    "unat (get_foo_header ! 4) = 0" "keySize get_foo_header = length key_foo"
    "bodySize get_foo_header = Some (length key_foo)"
    "rx pipelined =
       set_foo_header @ (flags_A @ key_foo @ value_bar) @ get_foo_header @ key_foo @ []"
    "52 + length value_bar \<le> room pipelined"
    by (simp_all add: set_foo_header_def get_foo_header_def keySize_def bodySize_def
        key_foo_def flags_A_def value_bar_def pipelined_def fresh_def)
  have t: "trace pipelined = []"
    by (simp add: pipelined_def fresh_def)
  have r0: "response_buffer 0 [] =
              [0x81, 0, 0, 0, 0, 0, 0, 0, 0, 0, 0, 0, 0, 0, 0, 0, 0, 0, 0, 0, 0, 0, 0, 0]"
    by (simp add: response_buffer_def header_length_def replicate_header)
  have r1: "response_buffer 0 (flags_A @ value_bar) =
              [0x81, 0, 0, 0, 4, 0, 0, 0, 0, 0, 0, 7, 0, 0, 0, 0, 0, 0, 0, 0, 0, 0, 0, 0,
               0x41, 0x41, 0x41, 0x41, 0x62, 0x61, 0x72]"
  proof -
    have len: "length (flags_A @ value_bar) = 7"
      by (simp add: flags_A_def value_bar_def)
    show ?thesis
      unfolding response_buffer_def Let_def len
      by (simp add: header_length_def replicate_header flags_A_def value_bar_def
          drop_bit_eq_div)
  qed
  from pipelined_set_then_get [OF hyps] hyps(6,13,14,15) show ?thesis
    unfolding t r0 r1 by (simp add: key_foo_def flags_A_def value_bar_def)
qed

end
